theory Spec2Isabelle
  imports Complex_Main
begin

section \<open>The coffee service: data model\<close>

text \<open>
  The service of \<^verbatim>\<open>main.py\<close> keeps one table, \<^verbatim>\<open>coffees\<close>, and answers five
  requests on it. Its handlers never compute with a price: they move it between the request,
  the table and the response. The Python \<^verbatim>\<open>float\<close> is therefore a type parameter \<open>'f\<close>
  of the whole model, and nothing below depends on what a float is.

  A request body is the Python value that the JSON parser hands to the framework: a JSON
  object is a dictionary from keys to values.
\<close>

datatype 'f json =
    JNull
  | JBool bool
  | JNumber 'f
  | JString string
  | JArray "'f json list"
  | JObject "string \<Rightarrow> 'f json option"

text \<open>
  \<^verbatim>\<open>class CoffeeCreate(BaseModel)\<close>: \<^verbatim>\<open>name: str\<close>,
  \<^verbatim>\<open>description: Optional[str] = None\<close>, \<^verbatim>\<open>price: float\<close>.
\<close>

record 'f CoffeeCreate =
  name :: string
  description :: "string option"
  price :: 'f

text \<open>
  \<^verbatim>\<open>class Coffee(Base)\<close>, a row of the table: the three columns above and the primary
  key \<^verbatim>\<open>id\<close> (written \<open>id'\<close> here, \<open>id\<close> being the identity function of HOL).
  \<^verbatim>\<open>Coffee(**coffee_data.dict())\<close> builds a row from the three fields of the input, so
  the row type extends the input type. \<^verbatim>\<open>class CoffeeRead\<close> has the four fields of
  the row and is filled from it attribute by attribute (\<^verbatim>\<open>orm_mode\<close>).
\<close>

record 'f Coffee = "'f CoffeeCreate" +
  id' :: int

type_synonym 'f CoffeeRead = "'f Coffee"

text \<open>
  The failures a caller can see: the framework's answer to a body that does not validate,
  with the locations of the offending fields (status 422); the handlers' own
  \<^verbatim>\<open>HTTPException(status_code=404, detail="Coffee not found")\<close>; and the store's refusal of
  a second row with the same primary key (an unhandled exception, status 500).
\<close>

datatype error =
    RequestValidationError "string list list"
  | HTTPException nat string
  | IntegrityError


section \<open>Validation of a request body\<close>

text \<open>
  The field types \<^verbatim>\<open>str\<close> and \<^verbatim>\<open>float\<close> are checked by the validation library. A JSON
  string is a \<^verbatim>\<open>str\<close> as it is, whatever its length: the class declares no constraint on
  \<^verbatim>\<open>name\<close>. A JSON number is a \<^verbatim>\<open>float\<close>. \<^verbatim>\<open>null\<close>, arrays and objects are
  neither. Whether a value of another JSON type is converted (a number or a boolean to a
  \<^verbatim>\<open>str\<close>, a string or a boolean to a \<^verbatim>\<open>float\<close>) depends on the library's version and
  mode, so these conversions are parameters of the model.
\<close>

record 'f coercion =
  to_str :: "'f json \<Rightarrow> string option"
  to_float :: "'f json \<Rightarrow> 'f option"

definition no_coercion :: "'f coercion" where
  "no_coercion = \<lparr>to_str = (\<lambda>v. None), to_float = (\<lambda>v. None)\<rparr>"

fun str_validator :: "'f coercion \<Rightarrow> 'f json \<Rightarrow> string option" where
  "str_validator V (JString s) = Some s"
| "str_validator V JNull = None"
| "str_validator V (JArray vs) = None"
| "str_validator V (JObject obj) = None"
| "str_validator V v = to_str V v"

fun float_validator :: "'f coercion \<Rightarrow> 'f json \<Rightarrow> 'f option" where
  "float_validator V (JNumber x) = Some x"
| "float_validator V JNull = None"
| "float_validator V (JArray vs) = None"
| "float_validator V (JObject obj) = None"
| "float_validator V v = to_float V v"

text \<open>
  A field without a default is required: a missing key is an error, and so is a value its
  validator refuses. \<^verbatim>\<open>Optional[str] = None\<close>: a missing key and \<^verbatim>\<open>null\<close> both give
  \<^verbatim>\<open>None\<close>, any other value goes through the validator.
\<close>

definition required :: "('f json \<Rightarrow> 'a option) \<Rightarrow> 'f json option \<Rightarrow> 'a option" where
  "required validator field = (case field of None \<Rightarrow> None | Some v \<Rightarrow> validator v)"

definition optional :: "('f json \<Rightarrow> 'a option) \<Rightarrow> 'f json option \<Rightarrow> 'a option option" where
  "optional validator field =
     (case field of
        None \<Rightarrow> Some None
      | Some JNull \<Rightarrow> Some None
      | Some v \<Rightarrow> map_option Some (validator v))"

definition loc :: "string \<Rightarrow> 'a option \<Rightarrow> string list list" where
  "loc field result = (if result = None then [[''body'', field]] else [])"

definition CoffeeCreate_validate :: "'f coercion \<Rightarrow> 'f json \<Rightarrow> error + 'f CoffeeCreate" where
  "CoffeeCreate_validate V body =
     (case body of
        JObject obj \<Rightarrow>
          (let n = required (str_validator V) (obj ''name'');
               d = optional (str_validator V) (obj ''description'');
               p = required (float_validator V) (obj ''price'')
           in case (n, d, p) of
                (Some n', Some d', Some p') \<Rightarrow>
                  Inr \<lparr>name = n', description = d', price = p'\<rparr>
              | _ \<Rightarrow>
                  Inl (RequestValidationError
                         (loc ''name'' n @ loc ''description'' d @ loc ''price'' p)))
      | _ \<Rightarrow> Inl (RequestValidationError [[''body'']]))"

section \<open>The store\<close>

text \<open>
  The relational store is outside the repository; the model keeps of it what the schema of
  \<^verbatim>\<open>class Coffee\<close> declares. The table \<^verbatim>\<open>coffees\<close> is the list of its rows, and
  \<^verbatim>\<open>Sequence("coffee_id_seq")\<close> numbers them: \<open>coffee_id_seq\<close> is the value the sequence
  hands out next, an unbounded integer here. \<^verbatim>\<open>primary_key=True\<close>: the store refuses a
  row whose id another row has. A sequence is not rolled back: an insertion that fails has
  still consumed its number. Every request runs in a session of its own, so the store is
  all that one request leaves to the next. \<open>init_db\<close> is the store after \<^verbatim>\<open>init_db()\<close>
  has created the table and the sequence in an empty database.
\<close>

record 'f db =
  coffees :: "'f Coffee list"
  coffee_id_seq :: int

definition init_db :: "'f db" where
  "init_db = \<lparr>coffees = [], coffee_id_seq = 1\<rparr>"

text \<open>\<^verbatim>\<open>db.get(Coffee, coffee_id)\<close>: the row with that primary key, or \<^verbatim>\<open>None\<close>.\<close>

definition db_get :: "'f db \<Rightarrow> int \<Rightarrow> 'f Coffee option" where
  "db_get s coffee_id = find (\<lambda>c. id' c = coffee_id) (coffees s)"

section \<open>The handlers\<close>

text \<open>
  Each handler returns its result, or the error it raises, and the store it leaves.

  \<^verbatim>\<open>get_coffees\<close>: \<^verbatim>\<open>select(Coffee)\<close>, all rows.
\<close>

definition get_coffees :: "'f db \<Rightarrow> (error + 'f CoffeeRead list) \<times> 'f db" where
  "get_coffees s = (Inr (coffees s), s)"

text \<open>
  \<^verbatim>\<open>add_coffee\<close>: \<^verbatim>\<open>Coffee(**coffee_data.dict())\<close> carries no id, so the insertion takes
  the next number of the sequence; \<^verbatim>\<open>commit\<close> inserts the row and \<^verbatim>\<open>refresh\<close> reads
  it back.
\<close>

definition add_coffee :: "'f CoffeeCreate \<Rightarrow> 'f db \<Rightarrow> (error + 'f CoffeeRead) \<times> 'f db" where
  "add_coffee coffee_data s =
     (let i = coffee_id_seq s;
          s1 = s\<lparr>coffee_id_seq := i + 1\<rparr>;
          new_coffee = \<lparr>name = name coffee_data, description = description coffee_data,
                        price = price coffee_data, id' = i\<rparr>
      in if db_get s i \<noteq> None then (Inl IntegrityError, s1)
         else (Inr new_coffee, s1\<lparr>coffees := coffees s @ [new_coffee]\<rparr>))"

text \<open>\<^verbatim>\<open>get_coffee_by_id\<close>: the row, or 404 when \<^verbatim>\<open>db.get\<close> gives \<^verbatim>\<open>None\<close>.\<close>

definition get_coffee_by_id :: "int \<Rightarrow> 'f db \<Rightarrow> (error + 'f CoffeeRead) \<times> 'f db" where
  "get_coffee_by_id coffee_id s =
     (case db_get s coffee_id of
        None \<Rightarrow> (Inl (HTTPException 404 ''Coffee not found''), s)
      | Some coffee \<Rightarrow> (Inr coffee, s))"

text \<open>
  \<^verbatim>\<open>update_coffee\<close>: 404 when the id is not there; otherwise the three attributes of the
  row are assigned from the input and the row is written back under its id.
\<close>

definition update_coffee ::
    "int \<Rightarrow> 'f CoffeeCreate \<Rightarrow> 'f db \<Rightarrow> (error + 'f CoffeeRead) \<times> 'f db" where
  "update_coffee coffee_id updated_data s =
     (case db_get s coffee_id of
        None \<Rightarrow> (Inl (HTTPException 404 ''Coffee not found''), s)
      | Some coffee \<Rightarrow>
          (let coffee' = coffee\<lparr>name := name updated_data,
                                description := description updated_data,
                                price := price updated_data\<rparr>
           in (Inr coffee',
               s\<lparr>coffees := map (\<lambda>c. if id' c = id' coffee then coffee' else c) (coffees s)\<rparr>)))"

text \<open>\<^verbatim>\<open>delete_coffee\<close>: 404 when the id is not there; otherwise the row is removed.\<close>

definition delete_coffee :: "int \<Rightarrow> 'f db \<Rightarrow> (error + unit) \<times> 'f db" where
  "delete_coffee coffee_id s =
     (case db_get s coffee_id of
        None \<Rightarrow> (Inl (HTTPException 404 ''Coffee not found''), s)
      | Some coffee \<Rightarrow> (Inr (), s\<lparr>coffees := filter (\<lambda>c. id' c \<noteq> id' coffee) (coffees s)\<rparr>))"

section \<open>The application\<close>

text \<open>
  The five routes. The framework validates the body of a \<^verbatim>\<open>POST\<close> or \<^verbatim>\<open>PUT\<close> before it
  calls the handler, and answers 422 itself when the body does not validate. A response is
  the route's status code and its content.
\<close>

datatype 'f request =
    GET_coffees
  | POST_coffees "'f json"
  | GET_coffee int
  | PUT_coffee int "'f json"
  | DELETE_coffee int

datatype 'f content =
    CoffeeList "'f CoffeeRead list"
  | CoffeeItem "'f CoffeeRead"
  | NoContent

type_synonym 'f response = "error + nat \<times> 'f content"

definition respond ::
    "nat \<Rightarrow> ('a \<Rightarrow> 'f content) \<Rightarrow> (error + 'a) \<times> 'f db \<Rightarrow> 'f response \<times> 'f db" where
  "respond code content r =
     (case fst r of Inl e \<Rightarrow> (Inl e, snd r) | Inr x \<Rightarrow> (Inr (code, content x), snd r))"

fun app :: "'f coercion \<Rightarrow> 'f request \<Rightarrow> 'f db \<Rightarrow> 'f response \<times> 'f db" where
  "app V GET_coffees s = respond 200 CoffeeList (get_coffees s)"
| "app V (POST_coffees body) s =
     (case CoffeeCreate_validate V body of
        Inl e \<Rightarrow> (Inl e, s)
      | Inr coffee_data \<Rightarrow> respond 201 CoffeeItem (add_coffee coffee_data s))"
| "app V (GET_coffee coffee_id) s = respond 200 CoffeeItem (get_coffee_by_id coffee_id s)"
| "app V (PUT_coffee coffee_id body) s =
     (case CoffeeCreate_validate V body of
        Inl e \<Rightarrow> (Inl e, s)
      | Inr updated_data \<Rightarrow> respond 200 CoffeeItem (update_coffee coffee_id updated_data s))"
| "app V (DELETE_coffee coffee_id) s =
     respond 204 (\<lambda>u. NoContent) (delete_coffee coffee_id s)"

text \<open>A sequence of requests, served one after the other: the responses and the last store.\<close>

fun run :: "'f coercion \<Rightarrow> 'f request list \<Rightarrow> 'f db \<Rightarrow> 'f response list \<times> 'f db" where
  "run V [] s = ([], s)"
| "run V (r # rs) s =
     (let (out, s1) = app V r s;
          (outs, s2) = run V rs s1
      in (out # outs, s2))"

section \<open>Vocabulary of the properties\<close>

text \<open>
  The ids that a sequence of responses reports as created: a response with status 201 comes
  from \<^verbatim>\<open>POST /coffees/\<close> only and carries the new row.
\<close>

fun created :: "'f response \<Rightarrow> int list" where
  "created (Inr (code, CoffeeItem c)) = (if code = 201 then [id' c] else [])"
| "created out = []"

definition created_ids :: "'f response list \<Rightarrow> int list" where
  "created_ids outs = concat (map created outs)"

text \<open>
  The sequence is ahead of the table when every id in the table is below the number the
  sequence hands out next. The empty store is such a state, and every request keeps it.
\<close>

definition seq_ahead :: "'f db \<Rightarrow> bool" where
  "seq_ahead s = list_all (\<lambda>c. id' c < coffee_id_seq s) (coffees s)"

text \<open>The two reading routes.\<close>

fun is_read :: "'f request \<Rightarrow> bool" where
  "is_read GET_coffees = True"
| "is_read (GET_coffee coffee_id) = True"
| "is_read r = False"

text \<open>
  Three request bodies, with prices as rational numbers:
  \<^verbatim>\<open>{"name":"Latte","price":4.5}\<close>,
  \<^verbatim>\<open>{"name":"Latte","description":"oat milk","price":5.0}\<close> and
  \<^verbatim>\<open>{"name":"Latte"}\<close>, which lacks its price.
\<close>

definition latte :: "rat json" where
  "latte = JObject (Map.empty(''name'' \<mapsto> JString ''Latte'', ''price'' \<mapsto> JNumber (9/2)))"

definition latte_oat_milk :: "rat json" where
  "latte_oat_milk = JObject (Map.empty(''name'' \<mapsto> JString ''Latte'',
      ''description'' \<mapsto> JString ''oat milk'', ''price'' \<mapsto> JNumber 5))"

definition no_price :: "rat json" where
  "no_price = JObject (Map.empty(''name'' \<mapsto> JString ''Latte''))"

text \<open>
  Three stores: the one that a create of the first body leaves of the empty store, the one
  left when that row is then deleted and the body is created again, and the one that an
  update of the first store with the second body leaves.
\<close>

definition latte_store :: "rat db" where
  "latte_store =
     \<lparr>coffees = [\<lparr>name = ''Latte'', description = None, price = 9/2, id' = 1\<rparr>],
      coffee_id_seq = 2\<rparr>"

definition second_latte_store :: "rat db" where
  "second_latte_store =
     \<lparr>coffees = [\<lparr>name = ''Latte'', description = None, price = 9/2, id' = 2\<rparr>],
      coffee_id_seq = 3\<rparr>"

definition oat_milk_store :: "rat db" where
  "oat_milk_store =
     \<lparr>coffees = [\<lparr>name = ''Latte'', description = Some ''oat milk'', price = 5, id' = 1\<rparr>],
      coffee_id_seq = 2\<rparr>"

section \<open>Lookup, handlers and requests: auxiliary facts\<close>

lemma db_get_None: "db_get s i = None \<longleftrightarrow> i \<notin> id' ` set (coffees s)"
  by (auto simp: db_get_def find_None_iff)

lemma db_get_Some: "db_get s i = Some c \<Longrightarrow> id' c = i \<and> c \<in> set (coffees s)"
  by (auto simp: db_get_def find_Some_iff)



lemma find_map_replace:
  "find (\<lambda>c. f c = i) xs = Some c \<Longrightarrow> f c' = i \<Longrightarrow>
   find (\<lambda>c. f c = i) (map (\<lambda>x. if f x = i then c' else x) xs) = Some c'"
  by (induction xs) (auto split: if_splits)

lemma add_coffee_fresh:
  assumes "coffee_id_seq s \<notin> id' ` set (coffees s)"
  shows "add_coffee d s =
    (Inr \<lparr>name = name d, description = description d, price = price d, id' = coffee_id_seq s\<rparr>,
     \<lparr>coffees = coffees s @ [\<lparr>name = name d, description = description d, price = price d,
                                id' = coffee_id_seq s\<rparr>],
      coffee_id_seq = coffee_id_seq s + 1\<rparr>)"
  using assms db_get_None [of s "coffee_id_seq s"]
  by (simp add: add_coffee_def Let_def)

lemma add_coffee_clash:
  assumes "coffee_id_seq s \<in> id' ` set (coffees s)"
  shows "add_coffee d s = (Inl IntegrityError, s\<lparr>coffee_id_seq := coffee_id_seq s + 1\<rparr>)"
  using assms db_get_None [of s "coffee_id_seq s"]
  by (simp add: add_coffee_def Let_def)

lemma get_coffee_by_id_absent:
  "i \<notin> id' ` set (coffees s) \<Longrightarrow>
   get_coffee_by_id i s = (Inl (HTTPException 404 ''Coffee not found''), s)"
  using db_get_None [of s i] by (simp add: get_coffee_by_id_def)

lemma update_coffee_absent:
  "i \<notin> id' ` set (coffees s) \<Longrightarrow>
   update_coffee i d s = (Inl (HTTPException 404 ''Coffee not found''), s)"
  using db_get_None [of s i] by (simp add: update_coffee_def)

lemma delete_coffee_absent:
  "i \<notin> id' ` set (coffees s) \<Longrightarrow>
   delete_coffee i s = (Inl (HTTPException 404 ''Coffee not found''), s)"
  using db_get_None [of s i] by (simp add: delete_coffee_def)


lemma update_coffee_found:
  assumes "db_get s i = Some c"
  shows "update_coffee i d s =
    (Inr \<lparr>name = name d, description = description d, price = price d, id' = i\<rparr>,
     s\<lparr>coffees := map (\<lambda>r. if id' r = i
                              then \<lparr>name = name d, description = description d,
                                    price = price d, id' = i\<rparr>
                              else r) (coffees s)\<rparr>)"
proof -
  have "id' c = i" using assms db_get_Some by blast
  then have "c\<lparr>name := name d, description := description d, price := price d\<rparr> =
             \<lparr>name = name d, description = description d, price = price d, id' = i\<rparr>"
    by (cases c) simp
  then show ?thesis using assms \<open>id' c = i\<close>
    by (simp add: update_coffee_def Let_def)
qed

lemma delete_coffee_found:
  assumes "db_get s i = Some c"
  shows "delete_coffee i s = (Inr (), s\<lparr>coffees := filter (\<lambda>r. id' r \<noteq> i) (coffees s)\<rparr>)"
proof -
  have "id' c = i" using assms db_get_Some by blast
  then show ?thesis using assms by (simp add: delete_coffee_def)
qed

lemma update_coffee_ids:
  "map id' (coffees (snd (update_coffee j d s))) = map id' (coffees s)"
proof (cases "db_get s j")
  case None
  then show ?thesis by (simp add: update_coffee_def)
next
  case (Some c)
  then show ?thesis by (simp add: update_coffee_found o_def cong: map_cong)
qed

lemma app_absent_stays:
  assumes "i \<notin> id' ` set (coffees s)" and "app V r s = (out, s1)" and "i \<notin> set (created out)"
  shows "i \<notin> id' ` set (coffees s1)"
proof (cases r)
  case GET_coffees
  then show ?thesis using assms by (auto simp: get_coffees_def respond_def)
next
  case (POST_coffees body)
  show ?thesis
  proof (cases "CoffeeCreate_validate V body")
    case (Inl e)
    then show ?thesis using assms POST_coffees by auto
  next
    case (Inr d)
    show ?thesis
    proof (cases "coffee_id_seq s \<in> id' ` set (coffees s)")
      case True
      then show ?thesis using assms POST_coffees Inr
        by (auto simp: add_coffee_clash respond_def)
    next
      case False
      then show ?thesis using assms POST_coffees Inr
        by (auto simp: add_coffee_fresh respond_def)
    qed
  qed
next
  case (GET_coffee j)
  then show ?thesis using assms
    by (auto simp: get_coffee_by_id_def respond_def split: option.splits)
next
  case (PUT_coffee j body)
  show ?thesis
  proof (cases "CoffeeCreate_validate V body")
    case (Inl e)
    then show ?thesis using assms PUT_coffee by auto
  next
    case (Inr d)
    then have "s1 = snd (update_coffee j d s)"
      using assms(2) PUT_coffee by (auto simp: respond_def split: sum.splits)
    then have "map id' (coffees s1) = map id' (coffees s)"
      by (simp add: update_coffee_ids)
    then have "id' ` set (coffees s1) = id' ` set (coffees s)"
      by (metis set_map)
    then show ?thesis using assms(1) by simp
  qed
next
  case (DELETE_coffee j)
  then show ?thesis using assms
    by (auto simp: delete_coffee_def respond_def split: option.splits)
qed

lemma run_absent_stays:
  "i \<notin> id' ` set (coffees s) \<Longrightarrow> run V rs s = (outs, s1) \<Longrightarrow>
   i \<notin> set (created_ids outs) \<Longrightarrow> i \<notin> id' ` set (coffees s1)"
proof (induction rs arbitrary: s outs)
  case Nil
  then show ?case by simp
next
  case (Cons r rs)
  obtain out s' where a: "app V r s = (out, s')" by (cases "app V r s")
  obtain outs' s'' where b: "run V rs s' = (outs', s'')" by (cases "run V rs s'")
  from Cons.prems(2) a b have eq: "outs = out # outs'" "s'' = s1" by auto
  with Cons.prems(3) have c: "i \<notin> set (created out)" "i \<notin> set (created_ids outs')"
    by (auto simp: created_ids_def)
  from app_absent_stays [OF Cons.prems(1) a c(1)] have "i \<notin> id' ` set (coffees s')" .
  from Cons.IH [OF this b [unfolded eq(2)] c(2)] show ?case .
qed

lemma app_cases:
  assumes "app V r s = (out, s1)"
  obtains
    (same) "s1 = s" "created out = []"
  | (seq) body where
      "s1 = s\<lparr>coffee_id_seq := coffee_id_seq s + 1\<rparr>" "out = Inl IntegrityError"
      "coffee_id_seq s \<in> id' ` set (coffees s)" "r = POST_coffees body"
  | (added) c body where
      "id' c = coffee_id_seq s" "coffee_id_seq s \<notin> id' ` set (coffees s)"
      "s1 = \<lparr>coffees = coffees s @ [c], coffee_id_seq = coffee_id_seq s + 1\<rparr>"
      "out = Inr (201, CoffeeItem c)" "r = POST_coffees body"
  | (updated) i c body where
      "s1 = s\<lparr>coffees := map (\<lambda>r. if id' r = i then c else r) (coffees s)\<rparr>"
      "id' c = i" "out = Inr (200, CoffeeItem c)" "r = PUT_coffee i body"
  | (deleted) i where "s1 = s\<lparr>coffees := filter (\<lambda>r. id' r \<noteq> i) (coffees s)\<rparr>"
      "out = Inr (204, NoContent)" "r = DELETE_coffee i"
proof (cases r)
  case GET_coffees
  then show ?thesis using assms same by (auto simp: get_coffees_def respond_def)
next
  case (POST_coffees body)
  show ?thesis
  proof (cases "CoffeeCreate_validate V body")
    case (Inl e)
    then show ?thesis using assms POST_coffees same by auto
  next
    case (Inr d)
    show ?thesis
    proof (cases "coffee_id_seq s \<in> id' ` set (coffees s)")
      case True
      then show ?thesis using assms POST_coffees Inr seq [of body]
        by (auto simp: add_coffee_clash respond_def)
    next
      case False
      then show ?thesis using assms POST_coffees Inr
          added [of "\<lparr>name = name d, description = description d, price = price d,
                      id' = coffee_id_seq s\<rparr>" body]
        by (auto simp: add_coffee_fresh respond_def)
    qed
  qed
next
  case (GET_coffee j)
  then show ?thesis using assms same
    by (auto simp: get_coffee_by_id_def respond_def split: option.splits)
next
  case (PUT_coffee j body)
  show ?thesis
  proof (cases "CoffeeCreate_validate V body")
    case (Inl e)
    then show ?thesis using assms PUT_coffee same by auto
  next
    case (Inr d)
    show ?thesis
    proof (cases "db_get s j")
      case None
      then show ?thesis using assms PUT_coffee Inr same
        by (auto simp: update_coffee_def respond_def)
    next
      case (Some c)
      then show ?thesis using assms PUT_coffee Inr
          updated [of j "\<lparr>name = name d, description = description d, price = price d, id' = j\<rparr>"
                      body]
        by (auto simp: update_coffee_found respond_def)
    qed
  qed
next
  case (DELETE_coffee j)
  show ?thesis
  proof (cases "db_get s j")
    case None
    then show ?thesis using assms DELETE_coffee same
      by (auto simp: delete_coffee_def respond_def)
  next
    case (Some c)
    then show ?thesis using assms DELETE_coffee deleted [of j]
      by (auto simp: delete_coffee_found respond_def)
  qed
qed

lemma app_seq_mono: "app V r s = (out, s1) \<Longrightarrow> coffee_id_seq s \<le> coffee_id_seq s1"
  by (erule app_cases) auto

lemma app_created_bounds:
  "app V r s = (out, s1) \<Longrightarrow> i \<in> set (created out) \<Longrightarrow>
   coffee_id_seq s \<le> i \<and> i < coffee_id_seq s1"
  by (erule app_cases) auto

lemma app_seq_ahead: "app V r s = (out, s1) \<Longrightarrow> seq_ahead s \<Longrightarrow> seq_ahead s1"
  by (erule app_cases) (auto simp: seq_ahead_def list_all_iff)

lemma map_replace_keys:
  "f c = i \<Longrightarrow> map f (map (\<lambda>r. if f r = i then c else r) xs) = map f xs"
  by (induction xs) auto

lemma app_distinct:
  "app V r s = (out, s1) \<Longrightarrow> distinct (map id' (coffees s)) \<Longrightarrow>
   distinct (map id' (coffees s1))"
proof (erule app_cases, goal_cases)
  case (4 i c body)
  have "map id' (coffees s1) = map id' (map (\<lambda>r. if id' r = i then c else r) (coffees s))"
    using 4(2) by simp
  also have "\<dots> = map id' (coffees s)"
    using 4(3) by (rule map_replace_keys)
  finally have "map id' (coffees s1) = map id' (coffees s)" .
  then show ?case using 4(1) by simp
qed (auto simp: distinct_map_filter)

lemma run_Cons:
  "app V r s = (out, s') \<Longrightarrow> run V rs s' = (outs, s1) \<Longrightarrow> run V (r # rs) s = (out # outs, s1)"
  by simp

lemma run_ConsE:
  assumes "run V (r # rs) s = (outs, s1)"
  obtains out outs' s' where "app V r s = (out, s')" "run V rs s' = (outs', s1)" "outs = out # outs'"
  using assms by (auto split: prod.splits)

lemma run_append:
  "run V rs1 s = (outs1, s1) \<Longrightarrow> run V rs2 s1 = (outs2, s2) \<Longrightarrow>
   run V (rs1 @ rs2) s = (outs1 @ outs2, s2)"
  by (induction rs1 arbitrary: s outs1) (auto split: prod.splits)

lemma run_seq_mono: "run V rs s = (outs, s1) \<Longrightarrow> coffee_id_seq s \<le> coffee_id_seq s1"
proof (induction rs arbitrary: s outs)
  case Nil
  then show ?case by simp
next
  case (Cons r rs)
  from Cons.prems obtain out outs' s' where
    st: "app V r s = (out, s')" "run V rs s' = (outs', s1)" by (rule run_ConsE)
  from app_seq_mono [OF st(1)] Cons.IH [OF st(2)] show ?case by simp
qed

lemma run_created_bounds:
  "run V rs s = (outs, s1) \<Longrightarrow> i \<in> set (created_ids outs) \<Longrightarrow>
   coffee_id_seq s \<le> i \<and> i < coffee_id_seq s1"
proof (induction rs arbitrary: s outs)
  case Nil
  then show ?case by (simp add: created_ids_def)
next
  case (Cons r rs)
  from Cons.prems(1) obtain out outs' s' where
    st: "app V r s = (out, s')" "run V rs s' = (outs', s1)" "outs = out # outs'"
    by (rule run_ConsE)
  from Cons.prems(2) st(3) consider "i \<in> set (created out)" | "i \<in> set (created_ids outs')"
    by (auto simp: created_ids_def)
  then show ?case
  proof cases
    case 1
    from app_created_bounds [OF st(1) 1] run_seq_mono [OF st(2)] show ?thesis by simp
  next
    case 2
    from Cons.IH [OF st(2) 2] app_seq_mono [OF st(1)] show ?thesis by simp
  qed
qed

lemma created_length: "length (created out) \<le> 1"
  by (cases out rule: created.cases) auto

lemma run_created_sorted: "run V rs s = (outs, s1) \<Longrightarrow> sorted_wrt (<) (created_ids outs)"
proof (induction rs arbitrary: s outs)
  case Nil
  then show ?case by (simp add: created_ids_def)
next
  case (Cons r rs)
  from Cons.prems(1) obtain out outs' s' where
    st: "app V r s = (out, s')" "run V rs s' = (outs', s1)" "outs = out # outs'"
    by (rule run_ConsE)
  have one: "sorted_wrt (<) (created out)"
    using created_length [of out] by (cases "created out") auto
  have "\<forall>i\<in>set (created out). \<forall>j\<in>set (created_ids outs'). i < j"
    using app_created_bounds [OF st(1)] run_created_bounds [OF st(2)] by fastforce
  with one Cons.IH [OF st(2)] st(3) show ?case
    by (simp add: created_ids_def sorted_wrt_append)
qed

lemma run_seq_ahead: "run V rs s = (outs, s1) \<Longrightarrow> seq_ahead s \<Longrightarrow> seq_ahead s1"
proof (induction rs arbitrary: s outs)
  case Nil
  then show ?case by simp
next
  case (Cons r rs)
  from Cons.prems(1) obtain out outs' s' where
    st: "app V r s = (out, s')" "run V rs s' = (outs', s1)" by (rule run_ConsE)
  from Cons.IH [OF st(2) app_seq_ahead [OF st(1) Cons.prems(2)]] show ?case .
qed

lemma run_distinct:
  "run V rs s = (outs, s1) \<Longrightarrow> distinct (map id' (coffees s)) \<Longrightarrow>
   distinct (map id' (coffees s1))"
proof (induction rs arbitrary: s outs)
  case Nil
  then show ?case by simp
next
  case (Cons r rs)
  from Cons.prems(1) obtain out outs' s' where
    st: "app V r s = (out, s')" "run V rs s' = (outs', s1)" by (rule run_ConsE)
  from Cons.IH [OF st(2) app_distinct [OF st(1) Cons.prems(2)]] show ?case .
qed

lemma app_read: "is_read r \<Longrightarrow> snd (app V r s) = s"
  by (cases r) (auto simp: get_coffees_def get_coffee_by_id_def respond_def split: option.splits)

lemma run_reads: "list_all is_read rs \<Longrightarrow> snd (run V rs s) = s"
proof (induction rs)
  case Nil
  then show ?case by simp
next
  case (Cons r rs)
  then have "snd (app V r s) = s" "snd (run V rs s) = s" by (simp_all add: app_read)
  then show ?case by (auto split: prod.splits)
qed

lemma seq_ahead_unused: "seq_ahead s \<Longrightarrow> coffee_id_seq s \<notin> id' ` set (coffees s)"
  by (auto simp: seq_ahead_def list_all_iff)

lemma seq_ahead_init_db: "seq_ahead init_db"
  by (simp add: seq_ahead_def init_db_def)

lemma run_init_db_unused:
  "run V rs init_db = (outs, s) \<Longrightarrow> coffee_id_seq s \<notin> id' ` set (coffees s)"
  using run_seq_ahead [OF _ seq_ahead_init_db] seq_ahead_unused by blast

lemma validate_description_omitted:
  "CoffeeCreate_validate V (JObject obj) = Inr d \<Longrightarrow> obj ''description'' = None \<Longrightarrow>
   description d = None"
  by (auto simp: CoffeeCreate_validate_def optional_def Let_def split: option.splits)

subsection \<open>The example bodies and stores\<close>

lemmas validate_simps =
  CoffeeCreate_validate_def required_def optional_def loc_def no_coercion_def

lemmas handler_simps =
  respond_def get_coffees_def add_coffee_def get_coffee_by_id_def update_coffee_def
  delete_coffee_def db_get_def init_db_def Let_def

lemma latte_valid:
  "CoffeeCreate_validate no_coercion latte =
     Inr \<lparr>name = ''Latte'', description = None, price = 9/2\<rparr>"
  by (simp add: latte_def validate_simps)

lemma latte_oat_milk_valid:
  "CoffeeCreate_validate no_coercion latte_oat_milk =
     Inr \<lparr>name = ''Latte'', description = Some ''oat milk'', price = 5\<rparr>"
  by (simp add: latte_oat_milk_def validate_simps)

lemma no_price_invalid:
  "CoffeeCreate_validate no_coercion no_price =
     Inl (RequestValidationError [[''body'', ''price'']])"
  by (simp add: no_price_def validate_simps)

section \<open>Validation\<close>




section \<open>Create, update and delete\<close>





text \<open>
  C4, as the code has it. Delete is terminal: after a delete of an id has answered 204, and
  after any further requests none of which reports that id as created, a get by that id
  and a second delete answer 404, and so does an update with any input that validates
  (the handler answers 404 whatever the validated input is). An update whose body does not
  validate is answered by the framework with the validation error, before the handler
  looks the id up. None of the three changes the store.
\<close>

theorem deleted_id_is_not_found:
  assumes "app V (DELETE_coffee i) s = (Inr ok, s1)"
      and "run V rs s1 = (outs, s2)"
      and "i \<notin> set (created_ids outs)"
  shows "app V (GET_coffee i) s2 = (Inl (HTTPException 404 ''Coffee not found''), s2)
       \<and> (\<forall>d. update_coffee i d s2 = (Inl (HTTPException 404 ''Coffee not found''), s2))
       \<and> (\<forall>body d. CoffeeCreate_validate V body = Inr d \<longrightarrow>
             app V (PUT_coffee i body) s2 = (Inl (HTTPException 404 ''Coffee not found''), s2))
       \<and> (\<forall>body e. CoffeeCreate_validate V body = Inl e \<longrightarrow>
             app V (PUT_coffee i body) s2 = (Inl e, s2))
       \<and> app V (DELETE_coffee i) s2 = (Inl (HTTPException 404 ''Coffee not found''), s2)"
proof -
  have "i \<notin> id' ` set (coffees s1)"
  proof (cases "db_get s i")
    case None
    then show ?thesis using assms(1) by (simp add: delete_coffee_def respond_def)
  next
    case (Some c)
    then show ?thesis using assms(1) by (auto simp: delete_coffee_found respond_def)
  qed
  from run_absent_stays [OF this assms(2,3)] have "i \<notin> id' ` set (coffees s2)" .
  then show ?thesis
    by (simp add: get_coffee_by_id_absent update_coffee_absent delete_coffee_absent respond_def)
qed

text \<open>
  The theorem on the store that holds one latte, with id 1: the latte is deleted, the list
  is read and a second latte is created, with id 2; id 1 is still not found.
\<close>

theorem deleted_id_is_not_found_witness:
  "app no_coercion (GET_coffee 1) second_latte_store =
     (Inl (HTTPException 404 ''Coffee not found''), second_latte_store)
   \<and> app no_coercion (PUT_coffee 1 latte_oat_milk) second_latte_store =
     (Inl (HTTPException 404 ''Coffee not found''), second_latte_store)
   \<and> app no_coercion (DELETE_coffee 1) second_latte_store =
     (Inl (HTTPException 404 ''Coffee not found''), second_latte_store)"
proof -
  let ?s1 = "\<lparr>coffees = [] :: rat Coffee list, coffee_id_seq = 2\<rparr>"
  let ?outs = "[Inr (200, CoffeeList []),
                Inr (201, CoffeeItem \<lparr>name = ''Latte'', description = None,
                                       price = 9/2 :: rat, id' = 2\<rparr>)]"
  have del: "app no_coercion (DELETE_coffee 1) latte_store = (Inr (204, NoContent), ?s1)"
    by (simp add: latte_store_def handler_simps)
  have rest: "run no_coercion [GET_coffees, POST_coffees latte] ?s1 = (?outs, second_latte_store)"
    by (simp add: latte_valid second_latte_store_def handler_simps)
  have none: "1 \<notin> set (created_ids ?outs)"
    by (simp add: created_ids_def)
  from deleted_id_is_not_found [OF del rest none] latte_oat_milk_valid show ?thesis
    by blast
qed

text \<open>
  C4 as it is written promises 404 for an update with any input. After a create and a
  delete of id 1, the update of id 1 with \<^verbatim>\<open>{"name":"Latte"}\<close> is answered 422.
\<close>

theorem update_of_deleted_id_with_invalid_body:
  "run no_coercion [POST_coffees latte, DELETE_coffee 1, PUT_coffee 1 no_price] init_db =
    ([Inr (201, CoffeeItem \<lparr>name = ''Latte'', description = None, price = 9/2, id' = 1\<rparr>),
      Inr (204, NoContent),
      Inl (RequestValidationError [[''body'', ''price'']])],
     \<lparr>coffees = [], coffee_id_seq = 2\<rparr>)"
  by (simp add: latte_valid no_price_invalid handler_simps)

section \<open>Ids that are not in the store\<close>



section \<open>Ids are fresh and increasing\<close>

text \<open>
  C6. Take a store whose sequence is ahead of its table and whose ids are pairwise distinct
  (the empty store is one), serve any requests, and then any further requests. The ids
  that the creates report, in the order of the requests, are strictly increasing, so no two
  creates report the same id. Every id created in the second part is above the id of every
  row that the store held between the two parts, whether that row is deleted later or not:
  a create never gives an id that a row has carried before. The ids of the last store are
  pairwise distinct, and its sequence is ahead of its table again.
\<close>

theorem created_ids_fresh_and_increasing:
  assumes "seq_ahead s" and "distinct (map id' (coffees s))"
      and "run V rs1 s = (outs1, s1)" and "run V rs2 s1 = (outs2, s2)"
  shows "sorted_wrt (<) (created_ids (outs1 @ outs2))
       \<and> (\<forall>c\<in>set (coffees s1). \<forall>i\<in>set (created_ids outs2). id' c < i)
       \<and> distinct (map id' (coffees s2))
       \<and> seq_ahead s2"
proof (intro conjI ballI)
  show "sorted_wrt (<) (created_ids (outs1 @ outs2))"
    using run_created_sorted [OF run_append [OF assms(3,4)]] .
  show "distinct (map id' (coffees s2))"
    using run_distinct [OF assms(4) run_distinct [OF assms(3,2)]] .
  show "seq_ahead s2"
    using run_seq_ahead [OF assms(4) run_seq_ahead [OF assms(3,1)]] .
next
  fix c i
  assume c: "c \<in> set (coffees s1)" and i: "i \<in> set (created_ids outs2)"
  have "seq_ahead s1" using run_seq_ahead [OF assms(3,1)] .
  with c have "id' c < coffee_id_seq s1" by (simp add: seq_ahead_def list_all_iff)
  with run_created_bounds [OF assms(4) i] show "id' c < i" by simp
qed

text \<open>
  The theorem on the empty store: a latte is created, with id 1; then it is deleted and a
  latte is created again, with id 2, above the id of the deleted row.
\<close>

theorem created_ids_fresh_and_increasing_witness:
  "run no_coercion [POST_coffees latte] init_db =
     ([Inr (201, CoffeeItem \<lparr>name = ''Latte'', description = None, price = 9/2, id' = 1\<rparr>)],
      latte_store)
   \<and> run no_coercion [DELETE_coffee 1, POST_coffees latte] latte_store =
     ([Inr (204, NoContent),
       Inr (201, CoffeeItem \<lparr>name = ''Latte'', description = None, price = 9/2, id' = 2\<rparr>)],
      second_latte_store)
   \<and> sorted_wrt (<) (created_ids
     ([Inr (201, CoffeeItem \<lparr>name = ''Latte'', description = None, price = 9/2 :: rat,
                              id' = 1\<rparr>)] @
      [Inr (204, NoContent),
       Inr (201, CoffeeItem \<lparr>name = ''Latte'', description = None, price = 9/2, id' = 2\<rparr>)]))
   \<and> id' \<lparr>name = ''Latte'', description = None, price = 9/2 :: rat, id' = 1\<rparr> < 2
   \<and> distinct (map id' (coffees second_latte_store))
   \<and> seq_ahead second_latte_store"
proof -
  let ?c1 = "\<lparr>name = ''Latte'', description = None, price = 9/2 :: rat, id' = 1\<rparr>"
  let ?c2 = "\<lparr>name = ''Latte'', description = None, price = 9/2 :: rat, id' = 2\<rparr>"
  let ?outs1 = "[Inr (201, CoffeeItem ?c1)]"
  let ?outs2 = "[Inr (204, NoContent), Inr (201, CoffeeItem ?c2)]"
  have ahead: "seq_ahead (init_db :: rat db)"
    by (simp add: seq_ahead_def init_db_def)
  have dist: "distinct (map id' (coffees (init_db :: rat db)))"
    by (simp add: init_db_def)
  have first: "run no_coercion [POST_coffees latte] init_db = (?outs1, latte_store)"
    by (simp add: latte_valid latte_store_def handler_simps)
  have second: "run no_coercion [DELETE_coffee 1, POST_coffees latte] latte_store =
      (?outs2, second_latte_store)"
    by (simp add: latte_valid latte_store_def second_latte_store_def handler_simps)
  have two: "2 \<in> set (created_ids ?outs2)"
    by (simp add: created_ids_def)
  have row: "?c1 \<in> set (coffees latte_store)"
    by (simp add: latte_store_def)
  from created_ids_fresh_and_increasing [OF ahead dist first second]
  have "sorted_wrt (<) (created_ids (?outs1 @ ?outs2))"
   and "\<forall>c\<in>set (coffees latte_store). \<forall>i\<in>set (created_ids ?outs2). id' c < i"
   and "distinct (map id' (coffees second_latte_store))"
   and "seq_ahead second_latte_store"
    by blast+
  with first second row two show ?thesis by blast
qed

section \<open>Reads\<close>

text \<open>
  C7. Reads are idempotent: a get by id, then any number of other reads and no write, then
  the same get again: the second get answers what the first answered, and the store after
  the whole sequence is the store before it. The same holds of the list.
\<close>

theorem reads_are_idempotent:
  assumes "list_all is_read rs"
  shows "(\<exists>out mid. run V (GET_coffee i # rs @ [GET_coffee i]) s = (out # mid @ [out], s))
       \<and> (\<exists>out mid. run V (GET_coffees # rs @ [GET_coffees]) s = (out # mid @ [out], s))"
proof -
  have same: "\<exists>out mid. run V (r # rs @ [r]) s = (out # mid @ [out], s)" if r: "is_read r" for r
  proof -
    obtain out where a: "app V r s = (out, s)"
      using app_read [OF r, of V s] by (cases "app V r s") auto
    obtain mid where b: "run V rs s = (mid, s)"
      using run_reads [OF assms, of V s] by (cases "run V rs s") auto
    have c: "run V [r] s = ([out], s)" using a by simp
    from run_Cons [OF a run_append [OF b c]] show ?thesis by blast
  qed
  show ?thesis using same [of "GET_coffee i"] same [of GET_coffees] by simp
qed

text \<open>
  The theorem on the store that holds one latte: get by id 1 twice, and the list twice,
  with a list and a get by id 2 in between.
\<close>

theorem reads_are_idempotent_witness:
  "(\<exists>out mid. run no_coercion (GET_coffee 1 # [GET_coffees, GET_coffee 2] @ [GET_coffee 1])
       latte_store = (out # mid @ [out], latte_store))
   \<and> (\<exists>out mid. run no_coercion (GET_coffees # [GET_coffees, GET_coffee 2] @ [GET_coffees])
       latte_store = (out # mid @ [out], latte_store))"
proof -
  have reads: "list_all is_read [GET_coffees, GET_coffee 2 :: rat request]" by simp
  from reads_are_idempotent [OF reads, of no_coercion 1 latte_store] show ?thesis .
qed

section \<open>Failures\<close>



section \<open>What an update touches\<close>

text \<open>
  C9. An update rewrites the name, the description and the price of the rows with its id
  and nothing else: the ids of the table, row by row, are those of before, the sequence is
  where it was, and every row with another id is the row of before. No request changes the
  id of a row: after any request other than the delete of its id, a row of the store is
  still there under the same id, and it is the very same row unless the request is an
  update of its id.
\<close>

theorem update_touches_three_fields:
  assumes "app V r s = (out, s1)"
  shows "(\<forall>i body. r = PUT_coffee i body \<longrightarrow>
            map id' (coffees s1) = map id' (coffees s)
          \<and> coffee_id_seq s1 = coffee_id_seq s
          \<and> (\<forall>k<length (coffees s). id' (coffees s ! k) \<noteq> i \<longrightarrow>
                coffees s1 ! k = coffees s ! k))
       \<and> (\<forall>c\<in>set (coffees s). r \<noteq> DELETE_coffee (id' c) \<longrightarrow>
            (\<exists>c'\<in>set (coffees s1). id' c' = id' c
               \<and> ((\<forall>body. r \<noteq> PUT_coffee (id' c) body) \<longrightarrow> c' = c)))"
proof (intro conjI allI impI ballI)
  fix i body
  assume r: "r = PUT_coffee i body"
  from assms show "coffee_id_seq s1 = coffee_id_seq s"
    by (rule app_cases) (use r in auto)
  from assms show "map id' (coffees s1) = map id' (coffees s)"
  proof (cases rule: app_cases)
    case (updated j c b)
    have "map id' (coffees s1) = map id' (map (\<lambda>r. if id' r = j then c else r) (coffees s))"
      using updated(1) by simp
    also have "\<dots> = map id' (coffees s)"
      using updated(2) by (rule map_replace_keys)
    finally show ?thesis .
  qed (use r in auto)
  fix k
  assume k: "k < length (coffees s)" "id' (coffees s ! k) \<noteq> i"
  from assms show "coffees s1 ! k = coffees s ! k"
    by (rule app_cases) (use r k in auto)
next
  fix c
  assume c: "c \<in> set (coffees s)" "r \<noteq> DELETE_coffee (id' c)"
  from assms show "\<exists>c'\<in>set (coffees s1). id' c' = id' c
               \<and> ((\<forall>body. r \<noteq> PUT_coffee (id' c) body) \<longrightarrow> c' = c)"
  proof (cases rule: app_cases)
    case (updated j u b)
    show ?thesis
    proof (cases "id' c = j")
      case True
      then have "u \<in> set (coffees s1)" using updated(1) c(1) by force
      then show ?thesis using True updated by auto
    next
      case False
      then have "c \<in> set (coffees s1)" using updated(1) c(1) by force
      then show ?thesis using False updated by auto
    qed
  next
    case (deleted j)
    then have "c \<in> set (coffees s1)" using c by auto
    then show ?thesis by blast
  qed (use c in auto)
qed

text \<open>
  The theorem on a store of two lattes, with ids 1 and 2: after the update of id 1 with
  \<^verbatim>\<open>{"name":"Latte","description":"oat milk","price":5.0}\<close> the ids are 1 and 2, the
  sequence is at 3 and the second row is as it was.
\<close>

theorem update_touches_three_fields_witness:
  "map id' (coffees (snd (app no_coercion (PUT_coffee 1 latte_oat_milk)
       \<lparr>coffees = [\<lparr>name = ''Latte'', description = None, price = 9/2, id' = 1\<rparr>,
                   \<lparr>name = ''Latte'', description = None, price = 9/2, id' = 2\<rparr>],
        coffee_id_seq = 3\<rparr>))) = [1, 2]
   \<and> coffee_id_seq (snd (app no_coercion (PUT_coffee 1 latte_oat_milk)
       \<lparr>coffees = [\<lparr>name = ''Latte'', description = None, price = 9/2, id' = 1\<rparr>,
                   \<lparr>name = ''Latte'', description = None, price = 9/2, id' = 2\<rparr>],
        coffee_id_seq = 3\<rparr>)) = 3
   \<and> coffees (snd (app no_coercion (PUT_coffee 1 latte_oat_milk)
       \<lparr>coffees = [\<lparr>name = ''Latte'', description = None, price = 9/2, id' = 1\<rparr>,
                   \<lparr>name = ''Latte'', description = None, price = 9/2, id' = 2\<rparr>],
        coffee_id_seq = 3\<rparr>)) ! 1 =
     \<lparr>name = ''Latte'', description = None, price = 9/2, id' = 2\<rparr>"
proof -
  let ?s = "\<lparr>coffees = [\<lparr>name = ''Latte'', description = None, price = 9/2 :: rat, id' = 1\<rparr>,
                       \<lparr>name = ''Latte'', description = None, price = 9/2, id' = 2\<rparr>],
            coffee_id_seq = 3\<rparr>"
  let ?r = "PUT_coffee 1 latte_oat_milk"
  have step: "app no_coercion ?r ?s = (fst (app no_coercion ?r ?s), snd (app no_coercion ?r ?s))"
    by simp
  have other: "1 < length (coffees ?s)" "id' (coffees ?s ! 1) \<noteq> 1"
    by simp_all
  from update_touches_three_fields [OF step]
  have "map id' (coffees (snd (app no_coercion ?r ?s))) = map id' (coffees ?s)"
   and "coffee_id_seq (snd (app no_coercion ?r ?s)) = coffee_id_seq ?s"
   and "\<forall>k<length (coffees ?s). id' (coffees ?s ! k) \<noteq> 1 \<longrightarrow>
          coffees (snd (app no_coercion ?r ?s)) ! k = coffees ?s ! k"
    by blast+
  with other show ?thesis by simp
qed

text \<open>
  C10. An update without a description erases the description: when the row of an id has
  a description and the body of the update validates and has no \<open>description\<close> key, the
  update answers 200 with a row whose description is \<^verbatim>\<open>None\<close>, and this is the row the
  store then holds under that id.
\<close>

theorem update_without_description_erases:
  assumes "CoffeeCreate_validate V (JObject obj) = Inr d"
      and "obj ''description'' = None"
      and "db_get s i = Some c" and "description c = Some old"
  shows "\<exists>c' s1. app V (PUT_coffee i (JObject obj)) s = (Inr (200, CoffeeItem c'), s1)
           \<and> db_get s1 i = Some c' \<and> description c' = None
           \<and> name c' = name d \<and> price c' = price d \<and> id' c' = i"
proof -
  have none: "description d = None"
    using assms(1,2) by (rule validate_description_omitted)
  let ?c = "\<lparr>name = name d, description = description d, price = price d, id' = i\<rparr>"
  let ?s1 = "s\<lparr>coffees := map (\<lambda>r. if id' r = i then ?c else r) (coffees s)\<rparr>"
  have put: "app V (PUT_coffee i (JObject obj)) s = (Inr (200, CoffeeItem ?c), ?s1)"
    using assms(1,3) by (simp add: update_coffee_found respond_def)
  have "db_get ?s1 i = Some ?c"
    using assms(3) find_map_replace [of id' i "coffees s" c ?c] by (simp add: db_get_def)
  with put none show ?thesis by simp
qed

text \<open>
  The theorem on the store whose latte has the description "oat milk": after the update
  with \<^verbatim>\<open>{"name":"Latte","price":4.5}\<close> the row has no description.
\<close>

theorem update_without_description_erases_witness:
  "\<exists>c' s1. app no_coercion (PUT_coffee 1 latte) oat_milk_store = (Inr (200, CoffeeItem c'), s1)
           \<and> db_get s1 1 = Some c' \<and> description c' = None
           \<and> name c' = ''Latte'' \<and> price c' = 9/2 \<and> id' c' = 1"
proof -
  let ?obj = "Map.empty(''name'' \<mapsto> JString ''Latte'', ''price'' \<mapsto> JNumber (9/2 :: rat))"
  have valid: "CoffeeCreate_validate no_coercion (JObject ?obj) =
      Inr \<lparr>name = ''Latte'', description = None, price = 9/2\<rparr>"
    using latte_valid by (simp add: latte_def)
  have omitted: "?obj ''description'' = None"
    by simp
  have row: "db_get oat_milk_store 1 =
      Some \<lparr>name = ''Latte'', description = Some ''oat milk'', price = 5, id' = 1\<rparr>"
    by (simp add: oat_milk_store_def db_get_def)
  have old: "description \<lparr>name = ''Latte'', description = Some ''oat milk'', price = 5 :: rat,
      id' = 1\<rparr> = Some ''oat milk''"
    by simp
  have body: "latte = JObject ?obj"
    by (simp only: latte_def)
  from update_without_description_erases [OF valid omitted row old, folded body]
  obtain c' s1 where
    "app no_coercion (PUT_coffee 1 latte) oat_milk_store = (Inr (200, CoffeeItem c'), s1)"
    "db_get s1 1 = Some c'" "description c' = None"
    "name c' = ''Latte''" "price c' = 9/2" "id' c' = 1"
    by (auto simp del: app.simps)
  then show ?thesis by blast
qed

end
